theory Spec2Isabelle
  imports
    Complex_Main
    "HOL-Library.Word"
    "HOL-Library.Multiset"
    "HOL-Library.Char_ord"
    "HOL-Library.List_Lexorder"
begin

unbundle bit_operations_syntax

section \<open>Bytes, constants and Python string helpers\<close>

type_synonym byte = "8 word"
type_synonym bytes = "byte list"

text \<open>\<^verbatim>\<open>manifest.py\<close>, lines 8-10, and \<^verbatim>\<open>downloader.py\<close>, lines 18-19.\<close>

definition PREFERRED_CHUNK_SIZE :: nat where
  "PREFERRED_CHUNK_SIZE = 8 * 1024 * 1024"

definition LARGE_FILE_SIZE :: nat where
  "LARGE_FILE_SIZE = 32 * 1024 * 1024"

definition HASH_CHUNK_SIZE :: nat where
  "HASH_CHUNK_SIZE = 1024 * 1024"

definition DOWNLOAD_CHUNK_SIZE :: nat where
  "DOWNLOAD_CHUNK_SIZE = 1024 * 1024"

text \<open>
  \<^verbatim>\<open>str(i)\<close> for a non-negative Python int, as the f-strings
  \<^verbatim>\<open>f"{path.name}.part{i}"\<close> and \<^verbatim>\<open>f"chunk_{chunk_index}.tar.xz"\<close> format it: decimal,
  most significant digit first, no leading zero.
\<close>

definition digit_char :: "nat \<Rightarrow> char" where
  "digit_char d = char_of (48 + d)"

function str_nat :: "nat \<Rightarrow> string" where
  "str_nat n = (if n < 10 then [digit_char n] else str_nat (n div 10) @ [digit_char (n mod 10)])"
  by pat_completeness auto
termination
  by (relation "measure id") auto

declare str_nat.simps [simp del]

text \<open>
  \<^verbatim>\<open>int(s)\<close>. On a non-empty string of ASCII decimal digits it is the decimal value
  of the string. On every other string it is what the parameter \<open>other\<close> says, an
  integer or \<open>None\<close> for the \<^verbatim>\<open>ValueError\<close>: Python also reads a sign, surrounding
  blanks, underscores between digits and the digits of other scripts, and raises on
  what is no integer literal. Nothing is fixed about \<^verbatim>\<open>int\<close> beyond its value on plain
  digits, so what is proved holds whatever it does elsewhere.
\<close>

definition is_digit :: "char \<Rightarrow> bool" where
  "is_digit c = (48 \<le> (of_char c :: nat) \<and> (of_char c :: nat) \<le> 57)"

definition digit_val :: "char \<Rightarrow> nat" where
  "digit_val c = of_char c - 48"

definition py_int :: "(string \<Rightarrow> int option) \<Rightarrow> string \<Rightarrow> int option" where
  "py_int other s =
     (if s \<noteq> [] \<and> list_all is_digit s
      then Some (foldl (\<lambda>a c. 10 * a + int (digit_val c)) 0 s)
      else other s)"

text \<open>
  \<^verbatim>\<open>s.split(sep)\<close>: the pieces between the non-overlapping occurrences of \<open>sep\<close>,
  found from the left. \<open>cur\<close> is the piece being collected. The only separator the
  program uses is the literal \<^verbatim>\<open>".part"\<close>; an empty separator (a \<^verbatim>\<open>ValueError\<close> in
  Python) never matches here.
\<close>

function py_split_from :: "string \<Rightarrow> string \<Rightarrow> string \<Rightarrow> string list" where
  "py_split_from sep cur s =
     (if s = [] then [cur]
      else if sep \<noteq> [] \<and> take (length sep) s = sep
        then cur # py_split_from sep [] (drop (length sep) s)
        else py_split_from sep (cur @ [hd s]) (tl s))"
  by pat_completeness auto
termination
  by (relation "measure (\<lambda>(sep, cur, s). length s)") auto

declare py_split_from.simps [simp del]

definition py_split :: "string \<Rightarrow> string \<Rightarrow> string list" where
  "py_split sep s = py_split_from sep [] s"

section \<open>Splitter: \<^verbatim>\<open>split_file\<close> (\<^verbatim>\<open>server/chunk.py\<close>, lines 14-28)\<close>

text \<open>
  The file being read is the list of the bytes not yet consumed; \<^verbatim>\<open>f.read(n)\<close> on a
  regular file returns the next \<open>n\<close> bytes, fewer only at the end of the file. Each
  iteration of the \<^verbatim>\<open>while True\<close> loop writes one part file; the result is the list of
  the files written into \<^verbatim>\<open>out_dir\<close>, as pairs of file name and content, in the order
  of writing. \<open>sz\<close> is the read size, \<open>i\<close> the loop counter.
\<close>

function split_loop :: "nat \<Rightarrow> string \<Rightarrow> bytes \<Rightarrow> nat \<Rightarrow> (string \<times> bytes) list" where
  "split_loop sz name rest i =
     (let chunk = take sz rest in
      if chunk = [] then []
      else (name @ ''.part'' @ str_nat i, chunk) # split_loop sz name (drop sz rest) (i + 1))"
  by pat_completeness auto
termination
  by (relation "measure (\<lambda>(sz, name, rest, i). length rest)") auto

declare split_loop.simps [simp del]

definition split_file :: "string \<Rightarrow> bytes \<Rightarrow> (string \<times> bytes) list" where
  "split_file name data = split_loop PREFERRED_CHUNK_SIZE name data 0"

section \<open>JSON values and exceptions\<close>

text \<open>
  A value read from JSON, and Python's truth value of it. \<^verbatim>\<open>None\<close> is \<open>JNull\<close>.
  Floating-point numbers are left out.
\<close>

datatype json =
    JNull
  | JBool bool
  | JInt int
  | JStr string
  | JList "json list"
  | JObj "(string \<times> json) list"

fun truthy :: "json \<Rightarrow> bool" where
  "truthy JNull = False"
| "truthy (JBool b) = b"
| "truthy (JInt i) = (i \<noteq> 0)"
| "truthy (JStr s) = (s \<noteq> [])"
| "truthy (JList xs) = (xs \<noteq> [])"
| "truthy (JObj kvs) = (kvs \<noteq> [])"

text \<open>A dictionary with string keys, and \<^verbatim>\<open>d.get(k)\<close>, which is \<^verbatim>\<open>None\<close> for a missing key.\<close>

type_synonym dict = "string \<rightharpoonup> json"

definition dict_get :: "dict \<Rightarrow> string \<Rightarrow> json" where
  "dict_get d k = (case d k of None \<Rightarrow> JNull | Some v \<Rightarrow> v)"

text \<open>
  The exceptions of the client: \<open>ChunkHashMismatch\<close>, \<open>UnknownFile\<close> and
  \<open>FileHashMismatch\<close> are the three \<^verbatim>\<open>RuntimeError\<close>s of \<^verbatim>\<open>process_chunk\<close>, told apart
  by their messages; each carries the value its message names.
\<close>

datatype error =
    ValueError
  | HTTPError
  | TransportError
  | FileNotFoundError string
  | TypeError
  | ReadError
  | ChunkHashMismatch json
  | UnknownFile string
  | FileHashMismatch string

section \<open>Reassembler: \<^verbatim>\<open>join_file\<close> (\<^verbatim>\<open>client/downloader.py\<close>, lines 40-48)\<close>

text \<open>
  \<open>entries\<close> is \<^verbatim>\<open>parts_dir.iterdir()\<close>: the files of the directory with their
  contents, in the order the operating system lists them. The sort key of an entry is
  \<^verbatim>\<open>int(p.name.split(".part")[-1])\<close>; \<^verbatim>\<open>sorted\<close> is stable, as \<open>sort_key\<close> is. A
  name whose last piece is no integer makes the key function raise, and the whole call
  with it. The result is the content written to \<^verbatim>\<open>output\<close>. \<open>other\<close> is the
  parameter of \<open>py_int\<close>.
\<close>

definition part_key :: "(string \<Rightarrow> int option) \<Rightarrow> string \<Rightarrow> int option" where
  "part_key other name = py_int other (last (py_split ''.part'' name))"

definition join_file ::
  "(string \<Rightarrow> int option) \<Rightarrow> (string \<times> bytes) list \<Rightarrow> error + bytes" where
  "join_file other entries =
     (if list_all (\<lambda>(n, c). part_key other n \<noteq> None) entries
      then Inr (concat (map snd (sort_key (\<lambda>(n, c). the (part_key other n)) entries)))
      else Inl ValueError)"


section \<open>Hasher: \<^verbatim>\<open>sha256_file\<close> and \<^verbatim>\<open>sha256_folder\<close>\<close>

text \<open>
  \<^verbatim>\<open>iter(lambda: f.read(n), b"")\<close>: the reads of a file up to, and without, the first
  empty one.
\<close>

function read_chunks :: "nat \<Rightarrow> bytes \<Rightarrow> bytes list" where
  "read_chunks n rest =
     (let chunk = take n rest in
      if chunk = [] then [] else chunk # read_chunks n (drop n rest))"
  by pat_completeness auto
termination
  by (relation "measure (\<lambda>(n, rest). length rest)") auto

declare read_chunks.simps [simp del]

text \<open>
  \<^verbatim>\<open>hashlib\<close> is no part of the repository. The state of a \<^verbatim>\<open>hashlib.sha256()\<close>
  object is the message it has absorbed: \<^verbatim>\<open>h.update(chunk)\<close> appends to it, and
  \<^verbatim>\<open>h.hexdigest()\<close> is the digest function \<open>H\<close> of that message. The functions below
  take \<open>H\<close> as a parameter, so what is proved of them holds for every digest function;
  \<open>sha256_hex\<close> is the one \<^verbatim>\<open>hashlib\<close> computes.
\<close>

type_synonym hasher = bytes

definition update :: "hasher \<Rightarrow> bytes \<Rightarrow> hasher" where
  "update h chunk = h @ chunk"

subsection \<open>SHA-256 (FIPS 180-4)\<close>

text \<open>
  A 32-bit word is an \<open>int\<close> in \<open>[0, 2^32)\<close>, with the wrap-around of the addition
  written out. \<open>rotr\<close> and \<open>shr\<close> are the rotation and the shift to the right,
  \<open>not32\<close> the complement. \<open>K256\<close> holds the sixty-four round constants and
  \<open>H256\<close> the initial hash value, in decimal.
\<close>

definition add32 :: "int \<Rightarrow> int \<Rightarrow> int" where
  "add32 x y = (x + y) mod 4294967296"

definition rotr :: "nat \<Rightarrow> int \<Rightarrow> int" where
  "rotr n x = x div 2 ^ n + (x mod 2 ^ n) * 2 ^ (32 - n)"

definition shr :: "nat \<Rightarrow> int \<Rightarrow> int" where
  "shr n x = x div 2 ^ n"

definition not32 :: "int \<Rightarrow> int" where
  "not32 x = 4294967295 - x"

definition K256 :: "int list" where
  "K256 =
     [1116352408, 1899447441, 3049323471, 3921009573, 961987163, 1508970993,
      2453635748, 2870763221, 3624381080, 310598401, 607225278, 1426881987,
      1925078388, 2162078206, 2614888103, 3248222580, 3835390401, 4022224774,
      264347078, 604807628, 770255983, 1249150122, 1555081692, 1996064986,
      2554220882, 2821834349, 2952996808, 3210313671, 3336571891, 3584528711,
      113926993, 338241895, 666307205, 773529912, 1294757372, 1396182291,
      1695183700, 1986661051, 2177026350, 2456956037, 2730485921, 2820302411,
      3259730800, 3345764771, 3516065817, 3600352804, 4094571909, 275423344,
      430227734, 506948616, 659060556, 883997877, 958139571, 1322822218,
      1537002063, 1747873779, 1955562222, 2024104815, 2227730452, 2361852424,
      2428436474, 2756734187, 3204031479, 3329325298]"

definition H256 :: "int list" where
  "H256 =
     [1779033703, 3144134277, 1013904242, 2773480762, 1359893119, 2600822924,
      528734635, 1541459225]"

definition ssig0 :: "int \<Rightarrow> int" where
  "ssig0 x = rotr 7 x XOR rotr 18 x XOR shr 3 x"

definition ssig1 :: "int \<Rightarrow> int" where
  "ssig1 x = rotr 17 x XOR rotr 19 x XOR shr 10 x"

definition bsig0 :: "int \<Rightarrow> int" where
  "bsig0 x = rotr 2 x XOR rotr 13 x XOR rotr 22 x"

definition bsig1 :: "int \<Rightarrow> int" where
  "bsig1 x = rotr 6 x XOR rotr 11 x XOR rotr 25 x"

definition ch :: "int \<Rightarrow> int \<Rightarrow> int \<Rightarrow> int" where
  "ch x y z = (x AND y) XOR (not32 x AND z)"

definition maj :: "int \<Rightarrow> int \<Rightarrow> int \<Rightarrow> int" where
  "maj x y z = (x AND y) XOR (x AND z) XOR (y AND z)"

text \<open>The words of a block, four bytes each, the most significant first.\<close>

fun be32 :: "int list \<Rightarrow> int list" where
  "be32 (a # b # c # d # r) = (((a * 256 + b) * 256 + c) * 256 + d) # be32 r"
| "be32 _ = []"

text \<open>
  The message schedule as a window of sixteen words, \<open>W\<^sub>t\<close> to \<open>W\<^sub>t\<^sub>+\<^sub>1\<^sub>5\<close>:
  \<open>next_w\<close> is \<open>W\<^sub>t\<^sub>+\<^sub>1\<^sub>6\<close>. \<open>round1\<close> is one round on the working variables
  \<open>a\<close> to \<open>h\<close>, a list of eight words.
\<close>

definition next_w :: "int list \<Rightarrow> int" where
  "next_w ws = add32 (add32 (ssig1 (ws ! 14)) (ws ! 9)) (add32 (ssig0 (ws ! 1)) (ws ! 0))"

definition next_state :: "int \<Rightarrow> int \<Rightarrow> int list \<Rightarrow> int list" where
  "next_state t1 t2 s =
     [add32 t1 t2, s ! 0, s ! 1, s ! 2, add32 (s ! 3) t1, s ! 4, s ! 5, s ! 6]"

definition round1 :: "int \<Rightarrow> int \<Rightarrow> int list \<Rightarrow> int list" where
  "round1 k w s =
     next_state
       (add32 (add32 (add32 (s ! 7) (bsig1 (s ! 4))) (ch (s ! 4) (s ! 5) (s ! 6))) (add32 k w))
       (add32 (bsig0 (s ! 0)) (maj (s ! 0) (s ! 1) (s ! 2))) s"

fun rounds :: "int list \<Rightarrow> int list \<Rightarrow> int list \<Rightarrow> int list" where
  "rounds [] ws s = s"
| "rounds (k # ks) ws s = rounds ks (tl ws @ [next_w ws]) (round1 k (hd ws) s)"

definition compress :: "int list \<Rightarrow> int list \<Rightarrow> int list" where
  "compress hs block = map2 add32 hs (rounds K256 (be32 block) hs)"

text \<open>
  The padding: the byte \<^verbatim>\<open>0x80\<close>, zeros up to 56 modulo 64, and the length of the
  message in bits as eight bytes.
\<close>

definition be_bytes8 :: "int \<Rightarrow> int list" where
  "be_bytes8 v = map (\<lambda>i. (v div 256 ^ i) mod 256) [7, 6, 5, 4, 3, 2, 1, 0::nat]"

definition pad :: "int list \<Rightarrow> int list" where
  "pad m = m @ [128] @ replicate ((119 - length m mod 64) mod 64) 0 @ be_bytes8 (8 * int (length m))"

function blocks :: "int list \<Rightarrow> int list list" where
  "blocks m = (if m = [] then [] else take 64 m # blocks (drop 64 m))"
  by pat_completeness auto
termination
  by (relation "measure length") auto

declare blocks.simps [simp del]

definition sha256 :: "bytes \<Rightarrow> bytes" where
  "sha256 m =
     map of_int (concat (map (\<lambda>w. map (\<lambda>i. (w div 256 ^ i) mod 256) [3, 2, 1, 0::nat])
       (foldl compress H256 (blocks (pad (map uint m))))))"

text \<open>\<^verbatim>\<open>hexdigest\<close>: two lower-case hexadecimal digits for each byte.\<close>

definition hex_char :: "nat \<Rightarrow> char" where
  "hex_char n = ''0123456789abcdef'' ! n"

definition hexdigest :: "bytes \<Rightarrow> string" where
  "hexdigest bs = concat (map (\<lambda>b. [hex_char (unat b div 16), hex_char (unat b mod 16)]) bs)"

definition sha256_hex :: "bytes \<Rightarrow> string" where
  "sha256_hex m = hexdigest (sha256 m)"

subsection \<open>The two hash functions of the program\<close>

text \<open>\<^verbatim>\<open>sha256_file\<close> (\<^verbatim>\<open>downloader.py\<close>, lines 22-27), on the content of the file.\<close>

definition sha256_file :: "(bytes \<Rightarrow> string) \<Rightarrow> bytes \<Rightarrow> string" where
  "sha256_file H data = H (foldl update [] (read_chunks HASH_CHUNK_SIZE data))"











section \<open>The file system of the client\<close>

text \<open>
  The regular files of the disk, as pairs of path and content with no path twice; a
  directory exists where a file lies below it. The order of the list is the order in
  which the operating system lists a directory.
\<close>

type_synonym fs = "(string \<times> bytes) list"

definition fs_read :: "fs \<Rightarrow> string \<Rightarrow> bytes option" where
  "fs_read fs p = map_of fs p"

definition fs_unlink :: "string \<Rightarrow> fs \<Rightarrow> fs" where
  "fs_unlink p fs = filter (\<lambda>e. fst e \<noteq> p) fs"

definition fs_write :: "string \<Rightarrow> bytes \<Rightarrow> fs \<Rightarrow> fs" where
  "fs_write p data fs = fs_unlink p fs @ [(p, data)]"

definition is_under :: "string \<Rightarrow> string \<Rightarrow> bool" where
  "is_under d p = (take (length d + 1) p = d @ ''/'')"

definition fs_rmtree :: "string \<Rightarrow> fs \<Rightarrow> fs" where
  "fs_rmtree d fs = filter (\<lambda>e. \<not> is_under d (fst e)) fs"

definition fs_iterdir :: "string \<Rightarrow> fs \<Rightarrow> (string \<times> bytes) list" where
  "fs_iterdir d fs =
     filter (\<lambda>e. CHR ''/'' \<notin> set (fst e))
       (map (\<lambda>e. (drop (length d + 1) (fst e), snd e)) (filter (\<lambda>e. is_under d (fst e)) fs))"

definition fs_move :: "string \<Rightarrow> string \<Rightarrow> fs \<Rightarrow> fs" where
  "fs_move src dst fs =
     (case fs_read fs src of None \<Rightarrow> fs | Some data \<Rightarrow> fs_write dst data (fs_unlink src fs))"

definition path_join :: "string \<Rightarrow> string \<Rightarrow> string" where
  "path_join d n = d @ ''/'' @ n"

section \<open>Download engine: \<^verbatim>\<open>_download_stream\<close> (\<^verbatim>\<open>client/downloader.py\<close>, lines 60-79)\<close>

text \<open>
  What \<^verbatim>\<open>requests.get(url, stream=True, ...)\<close> gives: whether the status passes
  \<^verbatim>\<open>raise_for_status\<close>, the \<^verbatim>\<open>Content-Length\<close> the response declares, if any, the
  chunks \<^verbatim>\<open>iter_content\<close> yields, and whether the iterator ends in a transport error
  after them.
\<close>

record response =
  r_ok :: bool
  r_content_length :: "nat option"
  r_chunks :: "bytes list"
  r_fails :: bool

text \<open>
  The read loop. \<open>cancel i\<close> is what \<^verbatim>\<open>cancel_event.is_set()\<close> returns in iteration
  \<open>i\<close>; another thread sets the event. \<open>written\<close> is what has been written to the
  open file, \<open>calls\<close> the arguments of the calls of \<^verbatim>\<open>on_bytes\<close> so far. The result says
  whether the loop was left by the \<^verbatim>\<open>return\<close> of line 76.
\<close>

fun read_loop ::
  "(nat \<Rightarrow> bool) \<Rightarrow> nat \<Rightarrow> bytes list \<Rightarrow> bytes \<Rightarrow> nat list \<Rightarrow> bool \<times> bytes \<times> nat list" where
  "read_loop cancel i [] written calls = (False, written, calls)"
| "read_loop cancel i (chunk # rest) written calls =
     (if cancel i then (True, written, calls)
      else if chunk \<noteq> [] then read_loop cancel (i + 1) rest (written @ chunk) (calls @ [length chunk])
      else read_loop cancel (i + 1) rest written calls)"

text \<open>
  \<^verbatim>\<open>_download_stream\<close>, named without its underscore. The function returns
  \<^verbatim>\<open>None\<close> on both ways out of the loop, \<open>Inr ()\<close> here; an
  exception is \<open>Inl\<close>. The other components of the result are the disk afterwards and
  the calls of \<^verbatim>\<open>on_bytes\<close>. \<open>get\<close> is the outcome of \<^verbatim>\<open>requests.get\<close>, an exception
  or a response.
\<close>

definition download_stream ::
  "error + response \<Rightarrow> (nat \<Rightarrow> bool) \<Rightarrow> fs \<Rightarrow> string \<Rightarrow> (error + unit) \<times> fs \<times> nat list" where
  "download_stream get cancel fs output_path =
     (let fs1 = (if fs_read fs output_path \<noteq> None then fs_unlink output_path fs else fs) in
      case get of
        Inl e \<Rightarrow> (Inl e, fs1, [])
      | Inr r \<Rightarrow>
          if \<not> r_ok r then (Inl HTTPError, fs1, [])
          else
            (case read_loop cancel 0 (r_chunks r) [] [] of
               (cancelled, written, calls) \<Rightarrow>
                 if \<not> cancelled \<and> r_fails r
                 then (Inl TransportError, fs_write output_path written fs1, calls)
                 else (Inr (), fs_write output_path written fs1, calls)))"

section \<open>Chunk processor: \<^verbatim>\<open>process_chunk\<close> (\<^verbatim>\<open>client/downloader.py\<close>, lines 82-130)\<close>

text \<open>
  A file entry of the manifest, with the keys \<^verbatim>\<open>manifest.py\<close> writes
  (lines 82-88).
\<close>

record file_meta =
  f_path :: string
  f_name :: string
  f_size :: int
  f_hash :: string
  f_category :: string

text \<open>
  Lines 102-130, what follows the check of the chunk hash. \<open>untar\<close> stands for
  \<^verbatim>\<open>tarfile.open(..., "r:xz")\<close> with \<^verbatim>\<open>extractall\<close>: the member files of an archive, or
  \<open>None\<close> where \<^verbatim>\<open>tarfile\<close> raises. A path is joined to a name with \<^verbatim>\<open>/\<close>. An
  exception leaves the disk as it is at that moment.
\<close>

fun place_files ::
  "(bytes \<Rightarrow> string) \<Rightarrow> (string \<rightharpoonup> file_meta) \<Rightarrow> string \<Rightarrow> string \<Rightarrow>
   (string \<times> bytes) list \<Rightarrow> fs \<Rightarrow> (error + unit) \<times> fs" where
  "place_files H file_map chunk_tmp items_dir [] fs = (Inr (), fs)"
| "place_files H file_map chunk_tmp items_dir ((n, data) # rest) fs =
     (case file_map n of
        None \<Rightarrow> (Inl (UnknownFile n), fs)
      | Some meta \<Rightarrow>
          if sha256_file H data \<noteq> f_hash meta then (Inl (FileHashMismatch (f_path meta)), fs)
          else place_files H file_map chunk_tmp items_dir rest
                 (fs_move (path_join chunk_tmp n) (path_join items_dir (f_name meta)) fs))"

fun place_parts :: "string \<Rightarrow> string \<Rightarrow> (string \<times> bytes) list \<Rightarrow> fs \<Rightarrow> fs" where
  "place_parts chunk_tmp tmp_large_dir [] fs = fs"
| "place_parts chunk_tmp tmp_large_dir ((n, data) # rest) fs =
     place_parts chunk_tmp tmp_large_dir rest
       (fs_move (path_join chunk_tmp n)
          (path_join (path_join tmp_large_dir (hd (py_split ''.part'' n))) n) fs)"

definition stage_chunk ::
  "(bytes \<Rightarrow> string) \<Rightarrow> (bytes \<Rightarrow> (string \<times> bytes) list option) \<Rightarrow> fs \<Rightarrow> string \<Rightarrow> bytes \<Rightarrow>
   dict \<Rightarrow> (string \<rightharpoonup> file_meta) \<Rightarrow> string \<Rightarrow> string \<Rightarrow> string \<Rightarrow> (error + unit) \<times> fs" where
  "stage_chunk H untar fs chunk_path blob chunk_meta file_map items_dir tmp_small_dir tmp_large_dir =
     (let category = dict_get chunk_meta ''category'';
          small = (category = JStr ''small'' \<or> category = JStr ''medium'')
      in case (case chunk_meta ''name'' of None \<Rightarrow> JStr ''chunk'' | Some v \<Rightarrow> v) of
           JStr name \<Rightarrow>
             (let chunk_tmp = path_join (if small then tmp_small_dir else tmp_large_dir) name;
                  fs1 = fs_rmtree chunk_tmp fs
              in case untar blob of
                   None \<Rightarrow> (Inl ReadError, fs1)
                 | Some members \<Rightarrow>
                     (let fs2 = fold (\<lambda>(n, data). fs_write (path_join chunk_tmp n) data) members fs1
                      in if small then
                           (case place_files H file_map chunk_tmp items_dir (fs_iterdir chunk_tmp fs2) fs2 of
                              (Inl e, fs3) \<Rightarrow> (Inl e, fs3)
                            | (Inr u, fs3) \<Rightarrow> (Inr (), fs_unlink chunk_path (fs_rmtree chunk_tmp fs3)))
                         else
                           (Inr (), fs_unlink chunk_path (fs_rmtree chunk_tmp
                              (place_parts chunk_tmp tmp_large_dir (fs_iterdir chunk_tmp fs2) fs2)))))
         | _ \<Rightarrow> (Inl TypeError, fs))"

text \<open>
  Lines 95-100, then the rest. Reading a chunk file that does not exist raises in
  \<^verbatim>\<open>sha256_file\<close>. \<^verbatim>\<open>actual_hash != expected_hash\<close> compares a string with whatever
  the manifest holds under \<^verbatim>\<open>"hash"\<close>.
\<close>

definition process_chunk ::
  "(bytes \<Rightarrow> string) \<Rightarrow> (bytes \<Rightarrow> (string \<times> bytes) list option) \<Rightarrow> fs \<Rightarrow> string \<Rightarrow>
   dict \<Rightarrow> (string \<rightharpoonup> file_meta) \<Rightarrow> string \<Rightarrow> string \<Rightarrow> string \<Rightarrow> (error + unit) \<times> fs" where
  "process_chunk H untar fs chunk_path chunk_meta file_map items_dir tmp_small_dir tmp_large_dir =
     (let expected_hash = dict_get chunk_meta ''hash'' in
      case fs_read fs chunk_path of
        None \<Rightarrow> (Inl (FileNotFoundError chunk_path), fs)
      | Some blob \<Rightarrow>
          (let actual_hash = sha256_file H blob in
           if truthy expected_hash \<and> JStr actual_hash \<noteq> expected_hash
           then (Inl (ChunkHashMismatch (dict_get chunk_meta ''name'')), fs)
           else stage_chunk H untar fs chunk_path blob chunk_meta file_map
                  items_dir tmp_small_dir tmp_large_dir))"

section \<open>Status registry: \<^verbatim>\<open>DownloadManager\<close> (\<^verbatim>\<open>client/downloader.py\<close>, lines 153-236)\<close>

record download_status =
  ds_id :: string
  ds_download :: real
  ds_process :: real
  ds_status :: string
  ds_error :: string
  ds_installed :: bool
  ds_bytes_total :: int
  ds_bytes_done :: int

text \<open>\<^verbatim>\<open>DownloadStatus(id=game_id, status="downloading")\<close>, the other fields at their defaults.\<close>

definition new_status :: "string \<Rightarrow> download_status" where
  "new_status game_id =
     \<lparr>ds_id = game_id, ds_download = 0, ds_process = 0, ds_status = ''downloading'',
      ds_error = [], ds_installed = False, ds_bytes_total = 0, ds_bytes_done = 0\<rparr>"

text \<open>
  A pipeline thread is the call of \<^verbatim>\<open>_run_pipeline\<close> it was started with:
  \<^verbatim>\<open>game_id\<close>, \<^verbatim>\<open>server_url\<close>, \<^verbatim>\<open>api_key\<close>, the cancellation event and
  \<^verbatim>\<open>max_workers\<close>.

  The state of a manager and of what it acts on. \<^verbatim>\<open>threading.Event\<close> objects live in
  a store, \<open>events\<close>: an event is its position there, the entry is its flag.
  \<open>statuses\<close> and \<open>cancel_events\<close> are the two dictionaries of the manager,
  \<open>threads\<close> the pipeline threads started so far, \<open>disk\<close> the files under
  \<^verbatim>\<open>base_dir\<close>, the staging directories \<^verbatim>\<open>downloads/<game_id>\<close> among them. The lock
  makes each method one step.
\<close>

type_synonym pipeline_thread = "string \<times> string \<times> string \<times> nat \<times> nat option"

record manager =
  statuses :: "string \<rightharpoonup> download_status"
  cancel_events :: "string \<rightharpoonup> nat"
  events :: "bool list"
  threads :: "pipeline_thread list"
  disk :: fs

text \<open>Lines 203-215 of \<^verbatim>\<open>start\<close>: a new event, a new status record, a new thread.\<close>

definition start_job :: "manager \<Rightarrow> string \<Rightarrow> string \<Rightarrow> string \<Rightarrow> nat option \<Rightarrow> manager" where
  "start_job m game_id server_url api_key max_workers =
     (let cancel_event = length (events m) in
      m\<lparr>events := events m @ [False],
        cancel_events := (cancel_events m)(game_id \<mapsto> cancel_event),
        statuses := (statuses m)(game_id \<mapsto> new_status game_id),
        threads := threads m @ [(game_id, server_url, api_key, cancel_event, max_workers)]\<rparr>)"

definition start :: "manager \<Rightarrow> string \<Rightarrow> string \<Rightarrow> string \<Rightarrow> nat option \<Rightarrow> manager" where
  "start m game_id server_url api_key max_workers =
     (case statuses m game_id of
        None \<Rightarrow> start_job m game_id server_url api_key max_workers
      | Some current \<Rightarrow>
          if ds_status current = ''downloading'' \<or> ds_status current = ''processing'' then m
          else start_job m game_id server_url api_key max_workers)"

text \<open>\<^verbatim>\<open>stop\<close>, lines 217-221, and \<^verbatim>\<open>remove\<close>, lines 231-236.\<close>

definition stop :: "manager \<Rightarrow> string \<Rightarrow> manager" where
  "stop m game_id =
     (case cancel_events m game_id of
        None \<Rightarrow> m
      | Some cancel_event \<Rightarrow> m\<lparr>events := (events m)[cancel_event := True]\<rparr>)"

definition remove :: "manager \<Rightarrow> string \<Rightarrow> manager" where
  "remove m game_id =
     (let m1 = (case cancel_events m game_id of
                  None \<Rightarrow> m
                | Some cancel_event \<Rightarrow>
                    m\<lparr>cancel_events := (cancel_events m)(game_id := None),
                      events := (events m)[cancel_event := True]\<rparr>)
      in m1\<lparr>statuses := (statuses m1)(game_id := None)\<rparr>)"

text \<open>\<^verbatim>\<open>DownloadManager.__init__\<close> (lines 166-177): two empty dictionaries, over a disk.\<close>

definition new_manager :: "fs \<Rightarrow> manager" where
  "new_manager d =
     \<lparr>statuses = Map.empty, cancel_events = Map.empty, events = [], threads = [], disk = d\<rparr>"

section \<open>Chunk packer: the script of \<^verbatim>\<open>server/chunk.py\<close> (lines 65-221)\<close>

text \<open>An entry of the \<^verbatim>\<open>chunks\<close> list of the manifest (lines 108-114, 43-49, 57-63).\<close>

record chunk =
  c_name :: string
  c_index :: nat
  c_files :: "string list"
  c_hash :: string
  c_category :: string

text \<open>
  The two keys of \<^verbatim>\<open>manifest.json\<close> the script reads or writes; it carries the others
  through unchanged.
\<close>

record manifest =
  m_files :: "file_meta list"
  m_chunks :: "chunk list"

definition chunk_file_name :: "nat \<Rightarrow> string" where
  "chunk_file_name chunk_index = ''chunk_'' @ str_nat chunk_index @ ''.tar.xz''"

text \<open>
  The entry of a small chunk. The hash of an archive depends on \<^verbatim>\<open>tarfile\<close>,
  \<^verbatim>\<open>xz\<close> and the disk: \<open>archive_hash i\<close> stands for
  \<^verbatim>\<open>sha256_file(Path("chunks/chunk_<i>.tar.xz"))\<close>.
\<close>

definition small_chunk :: "(nat \<Rightarrow> string) \<Rightarrow> nat \<Rightarrow> file_meta list \<Rightarrow> chunk" where
  "small_chunk archive_hash chunk_index current_files =
     \<lparr>c_name = chunk_file_name chunk_index, c_index = chunk_index,
      c_files = map f_name current_files, c_hash = archive_hash chunk_index,
      c_category = ''small''\<rparr>"

text \<open>
  The state of the small pass: the variables \<^verbatim>\<open>current_files\<close>, \<^verbatim>\<open>current_size\<close>
  and \<^verbatim>\<open>chunk_index\<close>, the list \<^verbatim>\<open>data["chunks"]\<close>, and the archives written to
  \<^verbatim>\<open>chunks/\<close> so far, each as its chunk index and the files added to it.
\<close>

record small_state =
  s_current_files :: "file_meta list"
  s_current_size :: int
  s_chunk_index :: nat
  s_chunks :: "chunk list"
  s_archives :: "(nat \<times> file_meta list) list"

text \<open>One iteration of the loop of lines 99-122 (the progress log left out).\<close>

definition small_step :: "(nat \<Rightarrow> string) \<Rightarrow> small_state \<Rightarrow> file_meta \<Rightarrow> small_state" where
  "small_step archive_hash s meta =
     (let files = s_current_files s @ [meta];
          new_size = s_current_size s + f_size meta
      in if new_size \<ge> int PREFERRED_CHUNK_SIZE
         then s\<lparr>s_current_files := [], s_current_size := 0,
                s_chunk_index := s_chunk_index s + 1,
                s_chunks := s_chunks s @ [small_chunk archive_hash (s_chunk_index s) files],
                s_archives := s_archives s @ [(s_chunk_index s, files)]\<rparr>
         else s\<lparr>s_current_files := files, s_current_size := new_size\<rparr>)"

fun small_loop :: "(nat \<Rightarrow> string) \<Rightarrow> file_meta list \<Rightarrow> small_state \<Rightarrow> small_state" where
  "small_loop archive_hash [] s = s"
| "small_loop archive_hash (meta # rest) s = small_loop archive_hash rest (small_step archive_hash s meta)"

text \<open>
  Lines 95-137: the loop from the initial state, the residual batch of lines 124-135,
  and the increment of line 137, which is outside the \<^verbatim>\<open>if\<close>.
\<close>

definition small_pass :: "(nat \<Rightarrow> string) \<Rightarrow> chunk list \<Rightarrow> file_meta list \<Rightarrow> small_state" where
  "small_pass archive_hash chunks0 small_files =
     (let s = small_loop archive_hash small_files
                \<lparr>s_current_files = [], s_current_size = 0, s_chunk_index = 0,
                 s_chunks = chunks0, s_archives = []\<rparr>;
          s1 = (if s_current_files s \<noteq> []
                then s\<lparr>s_chunks := s_chunks s @ [small_chunk archive_hash (s_chunk_index s) (s_current_files s)],
                       s_archives := s_archives s @ [(s_chunk_index s, s_current_files s)]\<rparr>
                else s)
      in s1\<lparr>s_chunk_index := s_chunk_index s1 + 1\<rparr>)"

text \<open>\<^verbatim>\<open>make_medium_chunk\<close> and \<^verbatim>\<open>make_large_chunk\<close> (lines 38-63).\<close>

definition make_medium_chunk :: "(nat \<Rightarrow> string) \<Rightarrow> file_meta \<times> nat \<Rightarrow> chunk" where
  "make_medium_chunk archive_hash args =
     (case args of (meta, chunk_index) \<Rightarrow>
        \<lparr>c_name = chunk_file_name chunk_index, c_index = chunk_index,
         c_files = [f_name meta], c_hash = archive_hash chunk_index,
         c_category = ''medium''\<rparr>)"

definition make_large_chunk :: "(nat \<Rightarrow> string) \<Rightarrow> string \<times> nat \<Rightarrow> chunk" where
  "make_large_chunk archive_hash args =
     (case args of (part_name, chunk_index) \<Rightarrow>
        \<lparr>c_name = chunk_file_name chunk_index, c_index = chunk_index,
         c_files = [part_name], c_hash = archive_hash chunk_index,
         c_category = ''large''\<rparr>)"

text \<open>
  The whole script. Beside \<open>archive_hash\<close> its parameters are what the run does not
  determine: \<open>completed_medium\<close> and \<open>completed_large\<close> are the orders in which
  \<^verbatim>\<open>as_completed\<close> hands the results of the worker pool back, each a rearrangement of
  the list of results; \<open>rglob\<close> is the order in which the operating system lists the
  part files of \<^verbatim>\<open>largeFiles_split\<close>, a rearrangement of their names; \<open>content\<close> is
  the content of the file a manifest entry names. The parts of all large files lie
  in one directory, so a name written twice is one file.
\<close>

definition chunk_main ::
  "(nat \<Rightarrow> string) \<Rightarrow> (chunk list \<Rightarrow> chunk list) \<Rightarrow> (chunk list \<Rightarrow> chunk list) \<Rightarrow>
   (string list \<Rightarrow> string list) \<Rightarrow> (file_meta \<Rightarrow> bytes) \<Rightarrow> manifest \<Rightarrow> manifest" where
  "chunk_main archive_hash completed_medium completed_large rglob content data =
     (let small_files = filter (\<lambda>f. f_category f = ''small'') (m_files data);
          s = small_pass archive_hash (m_chunks data) small_files;
          chunks1 = s_chunks s;
          index1 = s_chunk_index s;
          medium_files = filter (\<lambda>f. f_category f = ''medium'') (m_files data);
          medium_tasks = map (\<lambda>(i, meta). (meta, index1 + i)) (enumerate 0 medium_files);
          chunks2 = chunks1 @ completed_medium (map (make_medium_chunk archive_hash) medium_tasks);
          index2 = (if medium_files \<noteq> [] then index1 + length medium_files else index1);
          large_files = filter (\<lambda>f. f_category f = ''large'') (m_files data);
          parts = rglob (remdups (concat (map (\<lambda>meta. map fst (split_file (f_name meta) (content meta))) large_files)));
          large_tasks = map (\<lambda>(i, part). (part, index2 + i)) (enumerate 0 parts);
          chunks3 = chunks2 @ completed_large (map (make_large_chunk archive_hash) large_tasks)
      in data\<lparr>m_chunks := sort_key c_index chunks3\<rparr>)"

section \<open>Predicates and inputs of the statements\<close>

text \<open>
  The payload of a batch is the sum of the manifest sizes of its files. A batch is
  below the threshold when every proper prefix of it has a payload under
  \<^verbatim>\<open>PREFERRED_CHUNK_SIZE\<close>: the loop did not close it before its last file. A closed
  batch is one that stayed below the threshold until its last file brought it to the
  threshold or over it. \<open>small_inv\<close> is the invariant of the loop of the small pass.
\<close>

definition payload :: "file_meta list \<Rightarrow> int" where
  "payload batch = sum_list (map f_size batch)"

definition below_threshold :: "file_meta list \<Rightarrow> bool" where
  "below_threshold batch = (\<forall>k < length batch. payload (take k batch) < int PREFERRED_CHUNK_SIZE)"

definition closed_batch :: "file_meta list \<Rightarrow> bool" where
  "closed_batch batch = (int PREFERRED_CHUNK_SIZE \<le> payload batch \<and> below_threshold batch)"

definition small_inv :: "small_state \<Rightarrow> bool" where
  "small_inv s =
     (s_current_size s = payload (s_current_files s) \<and>
      (\<forall>k \<le> length (s_current_files s). payload (take k (s_current_files s)) < int PREFERRED_CHUNK_SIZE))"

text \<open>Inputs at which the statements below are evaluated.\<close>

definition small_example :: "file_meta list" where
  "small_example =
     [\<lparr>f_path = ''root/a'', f_name = ''0'', f_size = 4194304, f_hash = ''h0'', f_category = ''small''\<rparr>,
      \<lparr>f_path = ''root/b'', f_name = ''1'', f_size = 4194304, f_hash = ''h1'', f_category = ''small''\<rparr>,
      \<lparr>f_path = ''root/c'', f_name = ''2'', f_size = 1048576, f_hash = ''h2'', f_category = ''small''\<rparr>]"

definition medium_example :: manifest where
  "medium_example =
     \<lparr>m_files = [\<lparr>f_path = ''root/m'', f_name = ''0'', f_size = 8388608, f_hash = ''h0'',
                  f_category = ''medium''\<rparr>],
      m_chunks = []\<rparr>"


definition example_response :: response where
  "example_response =
     \<lparr>r_ok = True, r_content_length = Some 10, r_chunks = [[1, 2], [3]], r_fails = False\<rparr>"

definition short_response :: response where
  "short_response =
     \<lparr>r_ok = True, r_content_length = None, r_chunks = [[1, 2, 3]], r_fails = False\<rparr>"

definition ex_meta :: dict where
  "ex_meta = [''name'' \<mapsto> JStr ''chunk_0.tar.xz'', ''category'' \<mapsto> JStr ''small'', ''chunk_index'' \<mapsto> JInt 0,
              ''hash'' \<mapsto> JStr []]"

definition ex_file_map :: "string \<rightharpoonup> file_meta" where
  "ex_file_map = [''0'' \<mapsto> \<lparr>f_path = ''root/a.txt'', f_name = ''0'', f_size = 1, f_hash = ''4bf5122f344554c53bde2ebb8cd2b7e3d1600ad631c385a5d7cce23c7785459a'',
                  f_category = ''small''\<rparr>]"

section \<open>Properties of the splitter and of the reassembler\<close>

lemma PREFERRED_CHUNK_SIZE_pos: "0 < PREFERRED_CHUNK_SIZE"
  by (simp add: PREFERRED_CHUNK_SIZE_def)

lemma split_loop_Nil: "split_loop sz name [] i = []"
  by (simp add: split_loop.simps)

lemma split_loop_step:
  "0 < sz \<Longrightarrow> rest \<noteq> [] \<Longrightarrow>
   split_loop sz name rest i =
     (name @ ''.part'' @ str_nat i, take sz rest) # split_loop sz name (drop sz rest) (Suc i)"
  by (subst split_loop.simps) (simp add: Let_def)

lemma split_loop_concat:
  "0 < sz \<Longrightarrow> concat (map snd (split_loop sz name rest i)) = rest"
proof (induction "length rest" arbitrary: rest i rule: less_induct)
  case less
  show ?case
  proof (cases "rest = []")
    case True
    then show ?thesis by (simp add: split_loop_Nil)
  next
    case False
    with less.prems have "length (drop sz rest) < length rest" by simp
    from less.hyps [OF this less.prems] show ?thesis
      by (simp add: split_loop_step [OF less.prems False])
  qed
qed


lemma ceil_div_step:
  fixes n sz :: nat
  assumes "0 < sz" "0 < n"
  shows "(n + sz - 1) div sz = Suc ((n - sz + sz - 1) div sz)"
proof -
  obtain m where n: "n = Suc m" using assms by (cases n) auto
  have l: "(n + sz - 1) div sz = Suc (m div sz)"
  proof -
    have "n + sz - 1 = m + sz" by (simp add: n)
    then show ?thesis using assms by (metis div_add_self2 Suc_eq_plus1 less_numeral_extra(3))
  qed
  have r: "(n - sz + sz - 1) div sz = m div sz"
  proof (cases "sz \<le> n")
    case True
    then have "n - sz + sz - 1 = m" by (simp add: n)
    then show ?thesis by simp
  next
    case False
    then have "n - sz + sz - 1 = sz - 1" "m < sz" "sz - 1 < sz" using assms by (simp_all add: n)
    then show ?thesis by simp
  qed
  show ?thesis by (simp only: l r)
qed

lemma split_loop_names:
  "0 < sz \<Longrightarrow>
   map fst (split_loop sz name rest i) =
     map (\<lambda>k. name @ ''.part'' @ str_nat k) [i ..< i + (length rest + sz - 1) div sz]"
proof (induction "length rest" arbitrary: rest i rule: less_induct)
  case less
  show ?case
  proof (cases "rest = []")
    case True
    with less.prems show ?thesis by (simp add: split_loop_Nil)
  next
    case False
    with less.prems have lt: "length (drop sz rest) < length rest" by simp
    have cnt: "(length rest + sz - 1) div sz = Suc ((length (drop sz rest) + sz - 1) div sz)"
      using ceil_div_step [of sz "length rest"] less.prems False by simp
    have "[i ..< i + Suc ((length (drop sz rest) + sz - 1) div sz)] =
          i # [Suc i ..< Suc i + (length (drop sz rest) + sz - 1) div sz]"
      by (simp add: upt_conv_Cons)
    with less.hyps [OF lt less.prems, of "Suc i"] show ?thesis
      by (simp only: split_loop_step [OF less.prems False] cnt list.map fst_conv)
  qed
qed

lemma split_loop_lengths:
  "0 < sz \<Longrightarrow>
   map (\<lambda>p. length (snd p)) (split_loop sz name rest i) =
     replicate (length rest div sz) sz @
     (if length rest mod sz = 0 then [] else [length rest mod sz])"
proof (induction "length rest" arbitrary: rest i rule: less_induct)
  case less
  show ?case
  proof (cases "rest = []")
    case True
    with less.prems show ?thesis by (simp add: split_loop_Nil)
  next
    case False
    with less.prems have lt: "length (drop sz rest) < length rest" by simp
    note IH = less.hyps [OF lt less.prems, of "Suc i"]
    note step = split_loop_step [OF less.prems False, of name i]
    show ?thesis
    proof (cases "sz \<le> length rest")
      case True
      then have d: "length rest div sz = Suc ((length rest - sz) div sz)"
        and m: "length rest mod sz = (length rest - sz) mod sz"
        using less.prems by (simp_all add: le_div_geq le_mod_geq)
      have t: "length (take sz rest) = sz" using True by simp
      show ?thesis
        unfolding step d m using IH t by simp
    next
      case False
      then have d: "length rest div sz = 0" and m: "length rest mod sz = length rest"
        and e: "drop sz rest = []" and t: "take sz rest = rest"
        by simp_all
      show ?thesis
        unfolding step d m e t using \<open>rest \<noteq> []\<close> by (simp add: split_loop_Nil)
    qed
  qed
qed


lemma is_digit_digit_char: "d < 10 \<Longrightarrow> is_digit (digit_char d)"
  by (simp add: is_digit_def digit_char_def)

lemma digit_val_digit_char: "d < 10 \<Longrightarrow> digit_val (digit_char d) = d"
  by (simp add: digit_val_def digit_char_def)

lemma str_nat_digits: "list_all is_digit (str_nat n)"
proof (induction n rule: str_nat.induct)
  case (1 n)
  then show ?case
    by (subst str_nat.simps) (simp add: is_digit_digit_char)
qed

lemma str_nat_not_Nil: "str_nat n \<noteq> []"
  by (subst str_nat.simps) simp

lemma str_nat_value: "foldl (\<lambda>a c. 10 * a + int (digit_val c)) 0 (str_nat n) = int n"
proof (induction n rule: str_nat.induct)
  case (1 n)
  show ?case
  proof (cases "n < 10")
    case True
    then show ?thesis by (subst str_nat.simps) (simp add: digit_val_digit_char)
  next
    case False
    have "10 * int (n div 10) + int (n mod 10) = int n"
      by (simp add: zdiv_int zmod_int)
    with False 1 show ?thesis by (subst str_nat.simps) (simp add: digit_val_digit_char)
  qed
qed

lemma py_int_str_nat: "py_int other (str_nat n) = Some (int n)"
  by (simp add: py_int_def str_nat_digits str_nat_not_Nil str_nat_value)

lemma py_split_from_Nil: "py_split_from sep cur [] = [cur]"
  by (simp add: py_split_from.simps)

lemma py_split_from_match:
  "s \<noteq> [] \<Longrightarrow> sep \<noteq> [] \<Longrightarrow> take (length sep) s = sep \<Longrightarrow>
   py_split_from sep cur s = cur # py_split_from sep [] (drop (length sep) s)"
  by (subst py_split_from.simps) simp

lemma py_split_from_skip:
  "s \<noteq> [] \<Longrightarrow> take (length sep) s \<noteq> sep \<Longrightarrow>
   py_split_from sep cur s = py_split_from sep (cur @ [hd s]) (tl s)"
  by (subst py_split_from.simps) simp

lemma py_split_from_not_Nil: "py_split_from sep cur s \<noteq> []"
proof (induction sep cur s rule: py_split_from.induct)
  case (1 sep cur s)
  then show ?case by (subst py_split_from.simps) simp
qed

lemma split_no_sep:
  "sep \<noteq> [] \<Longrightarrow> hd sep \<notin> set d \<Longrightarrow> py_split_from sep cur d = [cur @ d]"
proof (induction d arbitrary: cur)
  case Nil
  then show ?case by (simp add: py_split_from_Nil)
next
  case (Cons c d)
  have "take (length sep) (c # d) \<noteq> sep"
  proof
    assume "take (length sep) (c # d) = sep"
    then have "hd (take (length sep) (c # d)) = hd sep" by simp
    with Cons.prems show False by (cases sep) auto
  qed
  with Cons show ?case by (simp add: py_split_from_skip)
qed

lemma split_last_piece:
  assumes sep: "sep \<noteq> []" "hd sep \<notin> set (tl sep)" and d: "hd sep \<notin> set d"
  shows "last (py_split_from sep cur (s @ sep @ d)) = d"
proof (induction "length s" arbitrary: s cur rule: less_induct)
  case less
  define t where "t = s @ sep @ d"
  have tne: "t \<noteq> []" using sep by (simp add: t_def)
  show ?case
  proof (cases "take (length sep) t = sep")
    case True
    note m = True
    show ?thesis
    proof (cases "s = []")
      case True
      then have "drop (length sep) t = d" by (simp add: t_def)
      then have "py_split_from sep cur t = [cur, d]"
        using py_split_from_match [OF tne sep(1) m, of cur] split_no_sep [OF sep(1) d, of "[]"]
        by simp
      then show ?thesis by (simp add: t_def)
    next
      case False
      have "length sep \<le> length s"
      proof (rule ccontr)
        assume "\<not> length sep \<le> length s"
        then have l: "length s < length sep" by simp
        have "t ! length s = hd sep" using sep by (simp add: t_def nth_append hd_conv_nth)
        moreover have "t ! length s = take (length sep) t ! length s" using l by simp
        ultimately have "sep ! length s = hd sep" using m by simp
        moreover have "0 < length s" using False by simp
        then obtain k where k: "length s = Suc k" by (cases "length s") auto
        have "sep ! Suc k = tl sep ! k" using sep(1) by (cases sep) auto
        moreover have "k < length (tl sep)" using l k by simp
        ultimately have "hd sep \<in> set (tl sep)" using k by (metis nth_mem)
        with sep show False by simp
      qed
      then have d5: "drop (length sep) t = drop (length sep) s @ sep @ d"
        by (simp add: t_def)
      have "length (drop (length sep) s) < length s"
        using \<open>length sep \<le> length s\<close> sep False by (cases sep) auto
      from less.hyps [OF this, of "[]"] have "last (py_split_from sep [] (drop (length sep) t)) = d"
        by (simp only: d5)
      moreover have "py_split_from sep [] (drop (length sep) t) \<noteq> []"
        by (rule py_split_from_not_Nil)
      ultimately have "last (py_split_from sep cur t) = d"
        by (simp add: py_split_from_match [OF tne sep(1) m])
      then show ?thesis by (simp only: t_def)
    qed
  next
    case False
    have ne: "s \<noteq> []"
    proof
      assume "s = []"
      then have "take (length sep) t = sep" by (simp add: t_def)
      with False show False by simp
    qed
    then have tl: "tl t = tl s @ sep @ d" by (simp add: t_def)
    have "length (tl s) < length s" using ne by simp
    from less.hyps [OF this, of "cur @ [hd t]"]
    have "last (py_split_from sep (cur @ [hd t]) (tl t)) = d" by (simp only: tl)
    then have "last (py_split_from sep cur t) = d"
      by (simp only: py_split_from_skip [OF tne False])
    then show ?thesis by (simp only: t_def)
  qed
qed

lemma digits_no_dot: "list_all is_digit d \<Longrightarrow> CHR ''.'' \<notin> set d"
  by (induction d) (auto simp: is_digit_def)

lemma part_key_part: "part_key other (name @ ''.part'' @ str_nat i) = Some (int i)"
proof -
  have "CHR ''.'' \<notin> set (str_nat i)" by (rule digits_no_dot) (rule str_nat_digits)
  then have "last (py_split_from ''.part'' [] (name @ ''.part'' @ str_nat i)) = str_nat i"
    by (intro split_last_piece) simp_all
  then show ?thesis by (simp only: part_key_def py_split_def py_int_str_nat)
qed


lemma split_loop_keys:
  assumes "0 < sz"
  shows "map (\<lambda>(n, c). the (part_key other n)) (split_loop sz name rest i) =
         map int [i ..< i + (length rest + sz - 1) div sz]"
proof -
  have "map (\<lambda>(n, c). the (part_key other n)) (split_loop sz name rest i) =
        map (\<lambda>n. the (part_key other n)) (map fst (split_loop sz name rest i))"
    by (simp add: case_prod_unfold comp_def)
  also have "\<dots> = map (\<lambda>k. int k) [i ..< i + (length rest + sz - 1) div sz]"
    by (simp only: split_loop_names [OF assms] map_map comp_def part_key_part option.sel)
  finally show ?thesis .
qed

lemma split_loop_keys_defined:
  assumes "0 < sz"
  shows "list_all (\<lambda>(n, c). part_key other n \<noteq> None) (split_loop sz name rest i)"
proof -
  have "\<forall>n \<in> set (map fst (split_loop sz name rest i)). part_key other n \<noteq> None"
    by (simp only: split_loop_names [OF assms]) (auto simp: part_key_part [simplified])
  then show ?thesis by (auto simp: list_all_iff)
qed

lemma sorted_map_int_upt: "sorted (map int [i ..< j])"
  by (induction j) (auto simp: sorted_append)

lemma distinct_map_int_upt: "distinct (map int [i ..< j])"
  by (simp add: distinct_map inj_on_def)

lemma join_split_loop:
  assumes sz: "0 < sz" and perm: "mset entries = mset (split_loop sz name rest i)"
  shows "join_file other entries = Inr rest"
proof -
  let ?xs = "split_loop sz name rest i"
  let ?f = "\<lambda>(n, c). the (part_key other n)"
  have set_eq: "set entries = set ?xs" using perm by (rule mset_eq_setD)
  have keys: "map ?f ?xs = map int [i ..< i + (length rest + sz - 1) div sz]"
    by (rule split_loop_keys [OF sz])
  have "distinct (map ?f ?xs)" by (simp only: keys distinct_map_int_upt)
  then have "inj_on ?f (set ?xs)" by (simp add: distinct_map)
  then have inj: "inj_on ?f (set entries)" by (simp only: set_eq)
  have srt: "sorted (map ?f ?xs)" by (simp only: keys sorted_map_int_upt)
  have sorted_eq: "sort_key ?f entries = ?xs"
    using perm inj srt by (rule sort_key_inj_key_eq)
  have "list_all (\<lambda>(n, c). part_key other n \<noteq> None) entries"
    using split_loop_keys_defined [OF sz, of other name rest i] set_eq by (simp add: list_all_iff)
  then have "join_file other entries = Inr (concat (map snd ?xs))"
    by (simp add: join_file_def sorted_eq)
  then show ?thesis by (simp only: split_loop_concat [OF sz])
qed

text \<open>
  Claim C6. Whatever the order in which the directory lists the parts that
  \<^verbatim>\<open>split_file\<close> wrote for a file, \<^verbatim>\<open>join_file\<close> sorts them by the integer after
  \<^verbatim>\<open>.part\<close> and writes exactly the bytes of the file; the number of parts is not
  bounded, so names such as \<^verbatim>\<open>.part10\<close> and \<^verbatim>\<open>.part2\<close> are covered. This holds
  whatever \<^verbatim>\<open>int\<close> does on strings that are not plain digits.
\<close>

theorem join_split_roundtrip:
  "mset entries = mset (split_file name data) \<Longrightarrow> join_file other entries = Inr data"
  unfolding split_file_def by (rule join_split_loop [OF PREFERRED_CHUNK_SIZE_pos])

theorem join_split_roundtrip_witness:
  "mset (rev (split_file ''7'' (replicate 100000000 1))) = mset (split_file ''7'' (replicate 100000000 1))
   \<and> join_file (\<lambda>s. None) (rev (split_file ''7'' (replicate 100000000 1))) =
       Inr (replicate 100000000 1)"
  using join_split_roundtrip
    [of "rev (split_file ''7'' (replicate 100000000 1))" "''7''" "replicate 100000000 1" "\<lambda>s. None"]
  by simp

text \<open>
  With a read size of one byte and a file of twelve bytes, to keep the example small:
  the order of the names puts \<^verbatim>\<open>.part10\<close> and \<^verbatim>\<open>.part11\<close> before \<^verbatim>\<open>.part2\<close>, and
  the bytes with them; \<^verbatim>\<open>join_file\<close> restores the file from the reversed listing.
\<close>

lemma name_order_is_not_part_order:
  "map fst (sort_key fst (split_loop 1 ''f'' [0, 1, 2, 3, 4, 5, 6, 7, 8, 9, 10, 11] 0)) =
     [''f.part0'', ''f.part1'', ''f.part10'', ''f.part11'', ''f.part2'', ''f.part3'', ''f.part4'',
      ''f.part5'', ''f.part6'', ''f.part7'', ''f.part8'', ''f.part9''] \<and>
   concat (map snd (sort_key fst (split_loop 1 ''f'' [0, 1, 2, 3, 4, 5, 6, 7, 8, 9, 10, 11] 0))) =
     [0, 1, 10, 11, 2, 3, 4, 5, 6, 7, 8, 9] \<and>
   join_file (\<lambda>s. None) (rev (split_loop 1 ''f'' [0, 1, 2, 3, 4, 5, 6, 7, 8, 9, 10, 11] 0)) =
     Inr [0, 1, 2, 3, 4, 5, 6, 7, 8, 9, 10, 11]"
  by code_simp

text \<open>
  Claim C7. For a file of \<open>s\<close> bytes \<^verbatim>\<open>split_file\<close> writes the parts
  \<^verbatim>\<open><name>.part<i>\<close> for \<open>i\<close> from \<open>0\<close> below \<open>ceil (s / 8 MiB)\<close>, in this order;
  there are \<open>s div 8 MiB\<close> parts of exactly 8 MiB, followed by one more part of
  \<open>s mod 8 MiB\<close> bytes when that is not zero.
\<close>

theorem split_file_parts:
  "map fst (split_file name data) =
     map (\<lambda>i. name @ ''.part'' @ str_nat i)
       [0 ..< (length data + PREFERRED_CHUNK_SIZE - 1) div PREFERRED_CHUNK_SIZE]
   \<and> map (\<lambda>p. length (snd p)) (split_file name data) =
     replicate (length data div PREFERRED_CHUNK_SIZE) PREFERRED_CHUNK_SIZE @
     (if length data mod PREFERRED_CHUNK_SIZE = 0 then []
      else [length data mod PREFERRED_CHUNK_SIZE])"
  unfolding split_file_def
  using split_loop_names [OF PREFERRED_CHUNK_SIZE_pos, of name data 0]
    split_loop_lengths [OF PREFERRED_CHUNK_SIZE_pos, of name data 0]
  by simp

section \<open>Properties of the hasher\<close>

lemma read_chunks_concat: "0 < n \<Longrightarrow> concat (read_chunks n rest) = rest"
proof (induction n rest rule: read_chunks.induct)
  case (1 n rest)
  show ?case
  proof (cases "take n rest = []")
    case True
    with 1(2) have "rest = []" by simp
    then show ?thesis by (simp add: read_chunks.simps)
  next
    case False
    with 1 have "concat (read_chunks n (drop n rest)) = drop n rest" by simp
    with False show ?thesis by (subst read_chunks.simps) (simp add: Let_def)
  qed
qed

lemma foldl_update: "foldl update h cs = h @ concat cs"
  by (induction cs arbitrary: h) (simp_all add: update_def)


lemma sha256_file_eq: "sha256_file H data = H data"
  by (simp add: sha256_file_def foldl_update read_chunks_concat HASH_CHUNK_SIZE_def)








text \<open>SHA-256 on the empty message, on \<^verbatim>\<open>abc\<close>, and on the two messages of the example.\<close>

lemma sha256_hex_empty:
  "sha256_hex [] = ''e3b0c44298fc1c149afbf4c8996fb92427ae41e4649b934ca495991b7852b855''"
  by code_simp

lemma sha256_hex_abc:
  "sha256_hex [0x61, 0x62, 0x63] =
     ''ba7816bf8f01cfea414140de5dae2223b00361a396177a9cb410ff61f20015ad''"
  by code_simp





section \<open>Properties of the download engine\<close>

lemma read_loop_no_cancel:
  "\<forall>j < length cs. \<not> cancel (i + j) \<Longrightarrow>
   read_loop cancel i cs written calls =
     (False, written @ concat cs, calls @ map length (filter (\<lambda>c. c \<noteq> []) cs))"
proof (induction cs arbitrary: i written calls)
  case Nil
  show ?case by simp
next
  case (Cons c cs)
  from Cons.prems have c0: "\<not> cancel i" by force
  from Cons.prems have "\<forall>j < length cs. \<not> cancel (Suc i + j)" by force
  from Cons.IH [OF this] c0 show ?case by simp
qed

lemma read_loop_cancel_at:
  "k < length cs \<Longrightarrow> cancel (i + k) \<Longrightarrow> \<forall>j < k. \<not> cancel (i + j) \<Longrightarrow>
   read_loop cancel i cs written calls =
     (True, written @ concat (take k cs), calls @ map length (filter (\<lambda>c. c \<noteq> []) (take k cs)))"
proof (induction cs arbitrary: i k written calls)
  case Nil
  then show ?case by simp
next
  case (Cons c cs)
  show ?case
  proof (cases k)
    case 0
    with Cons.prems show ?thesis by simp
  next
    case (Suc k')
    with Cons.prems have c0: "\<not> cancel i" by force
    from Cons.prems Suc have a: "k' < length cs" "cancel (Suc i + k')" by simp_all
    from Cons.prems Suc have b: "\<forall>j < k'. \<not> cancel (Suc i + j)" by force
    from Cons.IH [OF a b] c0 Suc show ?thesis by simp
  qed
qed

lemma fs_read_unlink: "fs_read (fs_unlink p fs) p = None"
  by (auto simp: fs_read_def fs_unlink_def map_of_eq_None_iff)

lemma fs_read_write: "fs_read (fs_write p data fs) p = Some data"
  using fs_read_unlink [of p fs]
  by (simp add: fs_read_def fs_write_def map_add_def)

lemma fs_write_unlink: "fs_write p data (fs_unlink p fs) = fs_write p data fs"
  by (simp add: fs_write_def fs_unlink_def)

text \<open>
  Claim C2, as amended. When the cancellation event is first seen set in iteration
  \<open>k\<close> of the read loop, \<^verbatim>\<open>_download_stream\<close> returns at once and normally; it does
  not delete the destination file, which stays on the disk with exactly the chunks of
  the iterations before \<open>k\<close>.
\<close>

theorem download_stream_cancelled:
  assumes "r_ok r" and "k < length (r_chunks r)" and "cancel k" and "\<forall>j < k. \<not> cancel j"
  shows "download_stream (Inr r) cancel fs output_path =
           (Inr (), fs_write output_path (concat (take k (r_chunks r))) fs,
            map length (filter (\<lambda>c. c \<noteq> []) (take k (r_chunks r)))) \<and>
         fs_read (fst (snd (download_stream (Inr r) cancel fs output_path))) output_path =
           Some (concat (take k (r_chunks r)))"
proof -
  have "read_loop cancel 0 (r_chunks r) [] [] =
          (True, concat (take k (r_chunks r)),
           map length (filter (\<lambda>c. c \<noteq> []) (take k (r_chunks r))))"
    using read_loop_cancel_at [of k "r_chunks r" cancel 0 "[]" "[]"] assms by simp
  then have "download_stream (Inr r) cancel fs output_path =
           (Inr (), fs_write output_path (concat (take k (r_chunks r))) fs,
            map length (filter (\<lambda>c. c \<noteq> []) (take k (r_chunks r))))"
    using assms(1) by (simp add: download_stream_def Let_def fs_write_unlink)
  then show ?thesis by (simp add: fs_read_write)
qed

theorem download_stream_cancelled_witness:
  "r_ok example_response \<and> 1 < length (r_chunks example_response) \<and> (\<lambda>i. i = 1) (1::nat) \<and>
   \<not> (\<lambda>i. i = 1) (0::nat) \<and>
   download_stream (Inr example_response) (\<lambda>i. i = 1) [] ''dl/chunks/chunk_0.tar.xz'' =
     (Inr (), [(''dl/chunks/chunk_0.tar.xz'', [1, 2])], [2])"
  using download_stream_cancelled [of example_response 1 "\<lambda>i. i = 1" "[]" "''dl/chunks/chunk_0.tar.xz''"]
  by (simp add: example_response_def fs_write_def fs_unlink_def)

text \<open>
  The loop is left by the \<^verbatim>\<open>return\<close> of line 76 in its second iteration, and the
  destination file is still there.
\<close>

theorem download_stream_cancel_counterexample:
  "fst (read_loop (\<lambda>i. i = 1) 0 (r_chunks example_response) [] []) \<and>
   fs_read (fst (snd (download_stream (Inr example_response) (\<lambda>i. i = 1) []
      ''dl/chunks/chunk_0.tar.xz''))) ''dl/chunks/chunk_0.tar.xz'' \<noteq> None"
  by (simp add: example_response_def download_stream_def fs_read_def fs_write_def fs_unlink_def)

text \<open>
  Claim C3, as amended. \<^verbatim>\<open>_download_stream\<close> never looks at the declared
  \<^verbatim>\<open>Content-Length\<close>: when the status is good, the body ends without a transport
  error and no cancellation is seen, it returns normally and the destination file holds
  exactly the bytes received, whatever length the response declared.
\<close>

theorem download_stream_ignores_content_length:
  assumes "r_ok r" and "\<not> r_fails r" and "\<forall>j < length (r_chunks r). \<not> cancel j"
  shows "download_stream (Inr (r\<lparr>r_content_length := declared\<rparr>)) cancel fs output_path =
           (Inr (), fs_write output_path (concat (r_chunks r)) fs,
            map length (filter (\<lambda>c. c \<noteq> []) (r_chunks r))) \<and>
         fs_read (fst (snd (download_stream (Inr (r\<lparr>r_content_length := declared\<rparr>)) cancel fs
            output_path))) output_path = Some (concat (r_chunks r))"
proof -
  have "read_loop cancel 0 (r_chunks r) [] [] =
          (False, concat (r_chunks r), map length (filter (\<lambda>c. c \<noteq> []) (r_chunks r)))"
    using read_loop_no_cancel [of "r_chunks r" cancel 0 "[]" "[]"] assms by simp
  then have "download_stream (Inr (r\<lparr>r_content_length := declared\<rparr>)) cancel fs output_path =
           (Inr (), fs_write output_path (concat (r_chunks r)) fs,
            map length (filter (\<lambda>c. c \<noteq> []) (r_chunks r)))"
    using assms(1,2) by (simp add: download_stream_def Let_def fs_write_unlink)
  then show ?thesis by (simp add: fs_read_write)
qed

theorem download_stream_ignores_content_length_witness:
  "r_ok short_response \<and> \<not> r_fails short_response \<and>
   length (r_chunks short_response) = 1 \<and> \<not> (\<lambda>i. False) (0::nat) \<and>
   download_stream (Inr (short_response\<lparr>r_content_length := Some 10\<rparr>)) (\<lambda>i. False) []
       ''dl/chunks/chunk_0.tar.xz'' =
     (Inr (), [(''dl/chunks/chunk_0.tar.xz'', [1, 2, 3])], [3])"
  using download_stream_ignores_content_length
    [of short_response "\<lambda>i. False" "Some 10" "[]" "''dl/chunks/chunk_0.tar.xz''"]
  by (simp add: short_response_def fs_write_def fs_unlink_def)

text \<open>
  A response that declares ten bytes and delivers three: the call returns normally and
  the file of three bytes stays.
\<close>

theorem download_stream_truncated_counterexample:
  "r_content_length (short_response\<lparr>r_content_length := Some 10\<rparr>) = Some 10 \<and>
   length (concat (r_chunks (short_response\<lparr>r_content_length := Some 10\<rparr>))) = 3 \<and>
   download_stream (Inr (short_response\<lparr>r_content_length := Some 10\<rparr>)) (\<lambda>i. False) []
       ''dl/chunks/chunk_0.tar.xz'' =
     (Inr (), [(''dl/chunks/chunk_0.tar.xz'', [1, 2, 3])], [3])"
  by (simp add: short_response_def download_stream_def fs_read_def fs_write_def fs_unlink_def)

section \<open>Properties of the chunk processor\<close>

lemma place_files_no_chunk_error:
  "fst (place_files H file_map chunk_tmp items_dir entries fs) \<noteq> Inl (ChunkHashMismatch v)"
proof (induction entries arbitrary: fs)
  case Nil
  show ?case by simp
next
  case (Cons e entries)
  obtain n data where e: "e = (n, data)" by (cases e)
  show ?case
    unfolding e using Cons.IH by (simp split: option.split)
qed

lemma stage_chunk_no_chunk_error:
  "fst (stage_chunk H untar fs chunk_path blob chunk_meta file_map items_dir tmp_small_dir tmp_large_dir)
     \<noteq> Inl (ChunkHashMismatch v)"
proof -
  have *: "\<And>ct d es fs'. (case place_files H file_map ct d es fs' of
                 (Inl e, fs3) \<Rightarrow> (Inl e, fs3)
               | (Inr u, fs3) \<Rightarrow> (Inr (), fs_unlink chunk_path (fs_rmtree ct fs3)))
            = (Inl (ChunkHashMismatch v), fs'') \<Longrightarrow> False" for fs''
    using place_files_no_chunk_error [of H file_map _ _ _ _ v]
    by (auto split: prod.splits sum.splits) (metis fst_conv)
  show ?thesis
    unfolding stage_chunk_def Let_def
    by (auto split: option.splits json.splits prod.splits sum.splits dest: *
             simp: place_files_no_chunk_error)
        (metis fst_conv place_files_no_chunk_error)+
qed

text \<open>
  Claim C9. When the chunk metadata holds no truthy value under \<^verbatim>\<open>"hash"\<close> (the key
  is missing, or its value is \<^verbatim>\<open>null\<close>, the empty string or another falsy value),
  \<^verbatim>\<open>process_chunk\<close> never raises the chunk hash mismatch, whatever the bytes of the
  archive, and for an archive that exists it does exactly what the extraction and
  staging of lines 102-130 do.
\<close>

theorem process_chunk_without_hash:
  assumes "\<not> truthy (dict_get chunk_meta ''hash'')"
  shows "(\<forall>v. fst (process_chunk H untar fs chunk_path chunk_meta file_map
                   items_dir tmp_small_dir tmp_large_dir) \<noteq> Inl (ChunkHashMismatch v)) \<and>
         (\<forall>blob. fs_read fs chunk_path = Some blob \<longrightarrow>
            process_chunk H untar fs chunk_path chunk_meta file_map items_dir tmp_small_dir tmp_large_dir
            = stage_chunk H untar fs chunk_path blob chunk_meta file_map items_dir tmp_small_dir tmp_large_dir)"
  using assms
  by (auto simp: process_chunk_def Let_def stage_chunk_no_chunk_error split: option.splits)

lemma sha256_hex_01:
  "sha256_hex [1] = ''4bf5122f344554c53bde2ebb8cd2b7e3d1600ad631c385a5d7cce23c7785459a''"
  by code_simp

theorem process_chunk_without_hash_witness:
  "\<not> truthy (dict_get ex_meta ''hash'') \<and>
   process_chunk sha256_hex (\<lambda>b. Some [(''0'', [1])]) [(''dl/chunks/chunk_0.tar.xz'', [9, 9])]
     ''dl/chunks/chunk_0.tar.xz'' ex_meta ex_file_map ''dl/items'' ''dl/tmp_small'' ''dl/tmp_large''
   = (Inr (), [(''dl/items/0'', [1])])"
proof -
  have h: "\<not> truthy (dict_get ex_meta ''hash'')" by (simp add: ex_meta_def dict_get_def)
  have r: "fs_read [(''dl/chunks/chunk_0.tar.xz'', [9, 9])] ''dl/chunks/chunk_0.tar.xz'' = Some [9, 9]"
    by (simp add: fs_read_def)
  have "stage_chunk sha256_hex (\<lambda>b. Some [(''0'', [1])]) [(''dl/chunks/chunk_0.tar.xz'', [9, 9])]
     ''dl/chunks/chunk_0.tar.xz'' [9, 9] ex_meta ex_file_map ''dl/items'' ''dl/tmp_small'' ''dl/tmp_large''
     = (Inr (), [(''dl/items/0'', [1])])"
    by (simp add: stage_chunk_def ex_meta_def ex_file_map_def dict_get_def path_join_def fs_rmtree_def
        fs_write_def fs_unlink_def fs_iterdir_def fs_move_def fs_read_def is_under_def
        sha256_file_eq sha256_hex_01)
  with process_chunk_without_hash [OF h] r h show ?thesis by simp
qed

section \<open>Properties of the status registry\<close>

text \<open>
  Claim C10. For a game id with no cancellation event in the registry,
  \<^verbatim>\<open>DownloadManager.stop\<close> returns without an error and leaves the whole state as it
  is: both dictionaries, every event, the threads and the disk.
\<close>

theorem stop_unregistered_noop:
  "cancel_events m game_id = None \<Longrightarrow> stop m game_id = m"
  by (simp add: stop_def)

theorem stop_unregistered_noop_witness:
  "cancel_events (remove (start (new_manager []) ''g1'' ''http://h'' ''k'' None) ''g1'') ''g1'' = None \<and>
   stop (remove (start (new_manager []) ''g1'' ''http://h'' ''k'' None) ''g1'') ''g1''
     = remove (start (new_manager []) ''g1'' ''http://h'' ''k'' None) ''g1''"
  using stop_unregistered_noop
    [of "remove (start (new_manager []) ''g1'' ''http://h'' ''k'' None) ''g1''" "''g1''"]
  by (simp add: remove_def start_def start_job_def new_manager_def)

text \<open>
  Claim C8. For a game id whose status record says \<^verbatim>\<open>downloading\<close> or
  \<^verbatim>\<open>processing\<close>, \<^verbatim>\<open>DownloadManager.start\<close> changes nothing: the status records,
  the cancellation events and their flags, and the disk with the staging directory are
  as before, and no pipeline thread is added.
\<close>

theorem start_active_noop:
  "statuses m game_id = Some current \<Longrightarrow>
   ds_status current = ''downloading'' \<or> ds_status current = ''processing'' \<Longrightarrow>
   start m game_id server_url api_key max_workers = m"
  by (auto simp add: start_def)

theorem start_active_noop_witness:
  "statuses (start (new_manager []) ''g1'' ''http://h'' ''k'' None) ''g1'' = Some (new_status ''g1'') \<and>
   (ds_status (new_status ''g1'') = ''downloading'' \<or> ds_status (new_status ''g1'') = ''processing'') \<and>
   start (start (new_manager []) ''g1'' ''http://h'' ''k'' None) ''g1'' ''http://h2'' ''k2'' (Some 4)
     = start (new_manager []) ''g1'' ''http://h'' ''k'' None \<and>
   threads (start (new_manager []) ''g1'' ''http://h'' ''k'' None) = [(''g1'', ''http://h'', ''k'', 0, None)]"
  using start_active_noop
    [of "start (new_manager []) ''g1'' ''http://h'' ''k'' None" "''g1''" "new_status ''g1''"
        "''http://h2''" "''k2''" "Some 4"]
  by (simp add: start_def start_job_def new_manager_def new_status_def)

section \<open>Properties of the chunk packer\<close>

lemma payload_Nil: "payload [] = 0"
  by (simp add: payload_def)

lemma small_step_close:
  assumes "small_inv s" and "int PREFERRED_CHUNK_SIZE \<le> s_current_size s + f_size meta"
  shows "small_step ah s meta =
           s\<lparr>s_current_files := [], s_current_size := 0, s_chunk_index := s_chunk_index s + 1,
             s_chunks := s_chunks s @ [small_chunk ah (s_chunk_index s) (s_current_files s @ [meta])],
             s_archives := s_archives s @ [(s_chunk_index s, s_current_files s @ [meta])]\<rparr>"
    and "closed_batch (s_current_files s @ [meta])"
    and "small_inv (small_step ah s meta)"
proof -
  show 1: "small_step ah s meta =
           s\<lparr>s_current_files := [], s_current_size := 0, s_chunk_index := s_chunk_index s + 1,
             s_chunks := s_chunks s @ [small_chunk ah (s_chunk_index s) (s_current_files s @ [meta])],
             s_archives := s_archives s @ [(s_chunk_index s, s_current_files s @ [meta])]\<rparr>"
    using assms(2) by (simp add: small_step_def Let_def)
  have "payload (s_current_files s @ [meta]) = s_current_size s + f_size meta"
    using assms(1) by (simp add: small_inv_def payload_def)
  moreover have "below_threshold (s_current_files s @ [meta])"
    using assms(1) by (auto simp: small_inv_def below_threshold_def)
  ultimately show "closed_batch (s_current_files s @ [meta])"
    using assms(2) by (simp add: closed_batch_def)
  show "small_inv (small_step ah s meta)"
    by (simp add: 1 small_inv_def payload_Nil PREFERRED_CHUNK_SIZE_def)
qed

lemma small_step_keep:
  assumes "small_inv s" and "\<not> int PREFERRED_CHUNK_SIZE \<le> s_current_size s + f_size meta"
  shows "small_step ah s meta =
           s\<lparr>s_current_files := s_current_files s @ [meta],
             s_current_size := s_current_size s + f_size meta\<rparr>"
    and "small_inv (small_step ah s meta)"
proof -
  show 1: "small_step ah s meta =
           s\<lparr>s_current_files := s_current_files s @ [meta],
             s_current_size := s_current_size s + f_size meta\<rparr>"
    using assms(2) by (simp add: small_step_def Let_def)
  have p: "payload (s_current_files s @ [meta]) = s_current_size s + f_size meta"
    using assms(1) by (simp add: small_inv_def payload_def)
  have "payload (take k (s_current_files s @ [meta])) < int PREFERRED_CHUNK_SIZE"
    if "k \<le> Suc (length (s_current_files s))" for k
  proof (cases "k \<le> length (s_current_files s)")
    case True
    then show ?thesis using assms(1) by (simp add: small_inv_def)
  next
    case False
    with that have "k = Suc (length (s_current_files s))" by simp
    then show ?thesis using p assms(2) by simp
  qed
  then show "small_inv (small_step ah s meta)"
    using p by (simp add: 1 small_inv_def)
qed

lemma small_loop_archives:
  assumes "small_inv s"
  shows "\<exists>new. s_archives (small_loop ah files s) = s_archives s @ new \<and>
           s_chunks (small_loop ah files s) = s_chunks s @ map (\<lambda>(i, b). small_chunk ah i b) new \<and>
           map fst new = [s_chunk_index s ..< s_chunk_index s + length new] \<and>
           s_chunk_index (small_loop ah files s) = s_chunk_index s + length new \<and>
           (\<forall>b \<in> set new. closed_batch (snd b)) \<and>
           concat (map snd new) @ s_current_files (small_loop ah files s) = s_current_files s @ files \<and>
           small_inv (small_loop ah files s)"
  using assms
proof (induction files arbitrary: s)
  case Nil
  then show ?case by simp
next
  case (Cons meta files)
  show ?case
  proof (cases "int PREFERRED_CHUNK_SIZE \<le> s_current_size s + f_size meta")
    case True
    note st = small_step_close(1) [OF Cons.prems True, of ah] small_step_close(2) [OF Cons.prems True]
      small_step_close(3) [OF Cons.prems True, of ah]
    from Cons.IH [OF st(3)] obtain new where new:
      "s_archives (small_loop ah files (small_step ah s meta)) = s_archives (small_step ah s meta) @ new"
      "s_chunks (small_loop ah files (small_step ah s meta)) =
         s_chunks (small_step ah s meta) @ map (\<lambda>(i, b). small_chunk ah i b) new"
      "map fst new = [s_chunk_index (small_step ah s meta) ..< s_chunk_index (small_step ah s meta) + length new]"
      "s_chunk_index (small_loop ah files (small_step ah s meta)) = s_chunk_index (small_step ah s meta) + length new"
      "\<forall>b \<in> set new. closed_batch (snd b)"
      "concat (map snd new) @ s_current_files (small_loop ah files (small_step ah s meta)) =
         s_current_files (small_step ah s meta) @ files"
      "small_inv (small_loop ah files (small_step ah s meta))"
      by blast
    let ?new = "(s_chunk_index s, s_current_files s @ [meta]) # new"
    have ci: "s_chunk_index (small_step ah s meta) = Suc (s_chunk_index s)"
      by (simp add: st(1))
    have tl: "map fst new = [Suc (s_chunk_index s) ..< Suc (s_chunk_index s) + length new]"
      using new(3) unfolding ci .
    have idx: "map fst ?new = [s_chunk_index s ..< s_chunk_index s + length ?new]"
      using tl by (simp del: upt_Suc add: upt_conv_Cons)
    show ?thesis
    proof (intro exI [of _ ?new] conjI)
      show "map fst ?new = [s_chunk_index s ..< s_chunk_index s + length ?new]" by (rule idx)
    qed (use new st(2) in \<open>simp_all add: st(1)\<close>)
  next
    case False
    note st = small_step_keep(1) [OF Cons.prems False, of ah] small_step_keep(2) [OF Cons.prems False, of ah]
    from Cons.IH [OF st(2)] obtain new where new:
      "s_archives (small_loop ah files (small_step ah s meta)) = s_archives (small_step ah s meta) @ new"
      "s_chunks (small_loop ah files (small_step ah s meta)) =
         s_chunks (small_step ah s meta) @ map (\<lambda>(i, b). small_chunk ah i b) new"
      "map fst new = [s_chunk_index (small_step ah s meta) ..< s_chunk_index (small_step ah s meta) + length new]"
      "s_chunk_index (small_loop ah files (small_step ah s meta)) = s_chunk_index (small_step ah s meta) + length new"
      "\<forall>b \<in> set new. closed_batch (snd b)"
      "concat (map snd new) @ s_current_files (small_loop ah files (small_step ah s meta)) =
         s_current_files (small_step ah s meta) @ files"
      "small_inv (small_loop ah files (small_step ah s meta))"
      by blast
    then show ?thesis
      by (intro exI [of _ new]) (simp add: st(1))
  qed
qed

lemma closed_batch_not_Nil: "closed_batch b \<Longrightarrow> b \<noteq> []"
  by (auto simp: closed_batch_def payload_def PREFERRED_CHUNK_SIZE_def)

lemma small_inv_init:
  "small_inv \<lparr>s_current_files = [], s_current_size = 0, s_chunk_index = 0,
              s_chunks = chunks0, s_archives = []\<rparr>"
  by (simp add: small_inv_def payload_def PREFERRED_CHUNK_SIZE_def)

lemma small_inv_below: "small_inv s \<Longrightarrow> below_threshold (s_current_files s)"
  by (simp add: small_inv_def below_threshold_def)

lemma small_pass_result:
  "\<exists>closed residual.
     s_archives (small_pass ah chunks0 files) = closed @ residual \<and>
     (\<forall>b \<in> set closed. closed_batch (snd b)) \<and>
     (residual = [] \<or> (\<exists>i b. residual = [(i, b)] \<and> b \<noteq> [] \<and> below_threshold b)) \<and>
     concat (map snd (closed @ residual)) = files \<and>
     map fst (closed @ residual) = [0 ..< length (closed @ residual)] \<and>
     s_chunks (small_pass ah chunks0 files) =
       chunks0 @ map (\<lambda>(i, b). small_chunk ah i b) (closed @ residual) \<and>
     s_chunk_index (small_pass ah chunks0 files) = Suc (length closed)"
proof -
  let ?s0 = "\<lparr>s_current_files = [], s_current_size = 0, s_chunk_index = 0,
              s_chunks = chunks0, s_archives = []\<rparr>"
  let ?s = "small_loop ah files ?s0"
  from small_loop_archives [OF small_inv_init, of ah files chunks0] obtain new where new:
    "s_archives ?s = new"
    "s_chunks ?s = chunks0 @ map (\<lambda>(i, b). small_chunk ah i b) new"
    "map fst new = [0 ..< length new]"
    "s_chunk_index ?s = length new"
    "\<forall>b \<in> set new. closed_batch (snd b)"
    "concat (map snd new) @ s_current_files ?s = files"
    "small_inv ?s"
    by auto
  show ?thesis
  proof (cases "s_current_files ?s = []")
    case True
    with new show ?thesis
      by (intro exI [of _ new] exI [of _ "[]"]) (simp add: small_pass_def Let_def)
  next
    case False
    have "map fst (new @ [(length new, s_current_files ?s)]) =
          [0 ..< length (new @ [(length new, s_current_files ?s)])]"
      using new(3) by simp
    with False new small_inv_below [OF new(7)] show ?thesis
      by (intro exI [of _ new] exI [of _ "[(length new, s_current_files ?s)]"])
         (simp add: small_pass_def Let_def)
  qed
qed

text \<open>
  Claim C5. Of the archives the small pass writes, every one but the last is a closed
  batch: its payload is at least \<^verbatim>\<open>PREFERRED_CHUNK_SIZE\<close>, 8 MiB, and it reached that
  only with its last file. No archive is empty, none was kept open beyond the
  threshold, the archives hold the small files in manifest order, a residual batch
  being the last, and the entries appended to the \<^verbatim>\<open>chunks\<close> list are those of these
  archives.
\<close>

theorem small_pass_density:
  "(\<forall>b \<in> set (butlast (s_archives (small_pass ah chunks0 files))). closed_batch (snd b)) \<and>
   (\<forall>b \<in> set (s_archives (small_pass ah chunks0 files)). snd b \<noteq> [] \<and> below_threshold (snd b)) \<and>
   concat (map snd (s_archives (small_pass ah chunks0 files))) = files \<and>
   s_chunks (small_pass ah chunks0 files) =
     chunks0 @ map (\<lambda>(i, b). small_chunk ah i b) (s_archives (small_pass ah chunks0 files))"
proof -
  from small_pass_result [of ah chunks0 files] obtain closed residual where r:
    "s_archives (small_pass ah chunks0 files) = closed @ residual"
    "\<forall>b \<in> set closed. closed_batch (snd b)"
    "residual = [] \<or> (\<exists>i b. residual = [(i, b)] \<and> b \<noteq> [] \<and> below_threshold b)"
    "concat (map snd (closed @ residual)) = files"
    "s_chunks (small_pass ah chunks0 files) =
       chunks0 @ map (\<lambda>(i, b). small_chunk ah i b) (closed @ residual)"
    by blast
  have 1: "\<forall>b \<in> set (butlast (closed @ residual)). closed_batch (snd b)"
    using r(2,3) by (auto simp: butlast_append dest: in_set_butlastD)
  have 2: "\<forall>b \<in> set (closed @ residual). snd b \<noteq> [] \<and> below_threshold (snd b)"
  proof
    fix b assume "b \<in> set (closed @ residual)"
    then consider "b \<in> set closed" | "b \<in> set residual" by auto
    then show "snd b \<noteq> [] \<and> below_threshold (snd b)"
    proof cases
      case 1
      with r(2) have "closed_batch (snd b)" by simp
      then show ?thesis using closed_batch_not_Nil by (simp add: closed_batch_def)
    next
      case 2
      with r(3) show ?thesis by auto
    qed
  qed
  show ?thesis using 1 2 r(4,5) by (simp only: r(1))
qed

theorem small_pass_density_witness:
  "(0, take 2 small_example) \<in> set (butlast (s_archives (small_pass (\<lambda>i. ''h'') [] small_example))) \<and>
   closed_batch (take 2 small_example) \<and>
   s_archives (small_pass (\<lambda>i. ''h'') [] small_example) =
     [(0, take 2 small_example), (1, drop 2 small_example)]"
proof -
  have a: "s_archives (small_pass (\<lambda>i. ''h'') [] small_example) =
     [(0, take 2 small_example), (1, drop 2 small_example)]"
    by (simp add: small_pass_def small_step_def small_example_def PREFERRED_CHUNK_SIZE_def Let_def)
  then have m: "(0, take 2 small_example) \<in> set (butlast (s_archives (small_pass (\<lambda>i. ''h'') [] small_example)))"
    by simp
  with small_pass_density [of "\<lambda>i. ''h''" "[]" small_example]
  have "closed_batch (snd (0::nat, take 2 small_example))" by blast
  with a m show ?thesis by simp
qed

lemma c_index_small_chunks:
  "map c_index (map (\<lambda>(i, b). small_chunk ah i b) xs) = map fst xs"
  by (induction xs) (auto simp: small_chunk_def)

lemma enumerate_shift: "map (\<lambda>x. k + fst x) (enumerate 0 xs) = [k ..< k + length xs]"
  by (rule nth_equalityI) (simp_all add: nth_enumerate_eq)

lemma c_index_medium_tasks:
  "map c_index (map (make_medium_chunk ah) (map (\<lambda>(i, meta). (meta, k + i)) (enumerate 0 ms))) =
     [k ..< k + length ms]"
proof -
  have "map c_index (map (make_medium_chunk ah) (map (\<lambda>(i, meta). (meta, k + i)) (enumerate 0 ms))) =
        map (\<lambda>x. k + fst x) (enumerate 0 ms)"
    by (simp add: make_medium_chunk_def case_prod_unfold comp_def)
  then show ?thesis by (simp only: enumerate_shift)
qed

lemma c_index_large_tasks:
  "map c_index (map (make_large_chunk ah) (map (\<lambda>(i, part). (part, k + i)) (enumerate 0 ps))) =
     [k ..< k + length ps]"
proof -
  have "map c_index (map (make_large_chunk ah) (map (\<lambda>(i, part). (part, k + i)) (enumerate 0 ps))) =
        map (\<lambda>x. k + fst x) (enumerate 0 ps)"
    by (simp add: make_large_chunk_def case_prod_unfold comp_def)
  then show ?thesis by (simp only: enumerate_shift)
qed

lemma perm_indices:
  "mset ys = mset xs \<Longrightarrow> mset (map c_index ys) = mset (map c_index (xs :: chunk list))"
  by (metis mset_map)

lemma sorted_indices_unique:
  fixes xs :: "chunk list"
  assumes "mset (map c_index xs) = mset T" and "sorted T" and "distinct T"
  shows "map c_index (sort_key c_index xs) = T"
proof (rule sorted_distinct_set_unique)
  show "sorted (map c_index (sort_key c_index xs))" by simp
  have m: "mset (map c_index (sort_key c_index xs)) = mset T"
    using assms(1) by simp
  then show "distinct (map c_index (sort_key c_index xs))"
    using assms(3) mset_eq_imp_distinct_iff by blast
  show "set (map c_index (sort_key c_index xs)) = set T"
    using m by (rule mset_eq_setD)
qed (use assms in simp_all)

text \<open>
  The indices of the result, for a manifest that comes with an empty \<^verbatim>\<open>chunks\<close>
  list: those of the small archives, \<open>0\<close> up to their number, and then \<open>n\<close>
  consecutive ones for the medium files and the parts of the large files, which start
  one above the number of closed batches. With a residual batch the two ranges meet;
  without one the index after the last closed batch is left out.
\<close>

lemma chunk_main_indices:
  assumes cm: "\<And>xs. mset (completed_medium xs) = mset xs"
    and cl: "\<And>xs. mset (completed_large xs) = mset xs"
    and empty: "m_chunks data = []"
  shows "\<exists>closed residual n.
           s_archives (small_pass archive_hash [] (filter (\<lambda>f. f_category f = ''small'') (m_files data)))
             = closed @ residual \<and>
           (\<forall>b \<in> set closed. closed_batch (snd b)) \<and>
           length residual \<le> 1 \<and>
           map c_index (m_chunks (chunk_main archive_hash completed_medium completed_large rglob content data)) =
             [0 ..< length closed + length residual] @ [Suc (length closed) ..< Suc (length closed) + n]"
proof -
  let ?small = "filter (\<lambda>f. f_category f = ''small'') (m_files data)"
  let ?medium = "filter (\<lambda>f. f_category f = ''medium'') (m_files data)"
  let ?large = "filter (\<lambda>f. f_category f = ''large'') (m_files data)"
  let ?parts = "rglob (remdups (concat (map (\<lambda>meta. map fst (split_file (f_name meta) (content meta))) ?large)))"
  let ?s = "small_pass archive_hash [] ?small"
  from small_pass_result [of archive_hash "[]" ?small] obtain closed residual where r:
    "s_archives ?s = closed @ residual"
    "\<forall>b \<in> set closed. closed_batch (snd b)"
    "residual = [] \<or> (\<exists>i b. residual = [(i, b)] \<and> b \<noteq> [] \<and> below_threshold b)"
    "map fst (closed @ residual) = [0 ..< length (closed @ residual)]"
    "s_chunks ?s = [] @ map (\<lambda>(i, b). small_chunk archive_hash i b) (closed @ residual)"
    "s_chunk_index ?s = Suc (length closed)"
    by blast
  let ?i1 = "Suc (length closed)"
  let ?m = "length ?medium"
  let ?l = "length ?parts"
  let ?mc = "map (make_medium_chunk archive_hash) (map (\<lambda>(i, meta). (meta, ?i1 + i)) (enumerate 0 ?medium))"
  let ?lc = "map (make_large_chunk archive_hash) (map (\<lambda>(i, part). (part, ?i1 + ?m + i)) (enumerate 0 ?parts))"
  let ?X = "s_chunks ?s @ completed_medium ?mc @ completed_large ?lc"
  let ?T = "[0 ..< length closed + length residual] @ [?i1 ..< ?i1 + (?m + ?l)]"
  have len: "length residual \<le> 1" using r(3) by auto
  have res: "m_chunks (chunk_main archive_hash completed_medium completed_large rglob content data) =
             sort_key c_index ?X"
    by (simp add: chunk_main_def Let_def empty r(6))
  have "map c_index (s_chunks ?s) = map fst (closed @ residual)"
    by (simp only: r(5) append_Nil c_index_small_chunks)
  then have 1: "map c_index (s_chunks ?s) = [0 ..< length closed + length residual]"
    by (simp only: r(4) length_append)
  have 2: "mset (map c_index (completed_medium ?mc)) = mset [?i1 ..< ?i1 + ?m]"
    using perm_indices [OF cm [of ?mc]] by (simp only: c_index_medium_tasks)
  have 3: "mset (map c_index (completed_large ?lc)) = mset [?i1 + ?m ..< ?i1 + ?m + ?l]"
    using perm_indices [OF cl [of ?lc]] by (simp only: c_index_large_tasks)
  have split: "[?i1 ..< ?i1 + (?m + ?l)] = [?i1 ..< ?i1 + ?m] @ [?i1 + ?m ..< ?i1 + ?m + ?l]"
    using upt_add_eq_append [of ?i1 "?i1 + ?m" ?l] by (simp only: add.assoc le_add1)
  have "mset (map c_index ?X) =
        mset (map c_index (s_chunks ?s)) + (mset (map c_index (completed_medium ?mc)) +
          mset (map c_index (completed_large ?lc)))"
    by (simp only: map_append mset_append)
  also have "\<dots> = mset ?T"
    by (simp only: 1 2 3 split mset_append)
  finally have ms: "mset (map c_index ?X) = mset ?T" .
  have srt: "sorted ?T" using len by (auto simp: sorted_append)
  have dst: "distinct ?T" using len by auto
  have "map c_index (sort_key c_index ?X) = ?T"
    using ms srt dst by (rule sorted_indices_unique)
  with r(1,2) len res show ?thesis
    by (intro exI [of _ closed] exI [of _ residual] exI [of _ "?m + ?l"]) simp
qed

text \<open>
  Claim C1. A manifest with no small file and one medium file: the small pass leaves
  no residual batch, line 137 still adds one to \<^verbatim>\<open>chunk_index\<close>, and the only chunk
  of the result has the index \<open>1\<close>. The indices are not \<open>{0, ..., len(chunks) - 1}\<close>.
\<close>

theorem chunk_main_index_gap:
  "map c_index (m_chunks (chunk_main (\<lambda>i. ''h'') (\<lambda>xs. xs) (\<lambda>xs. xs) (\<lambda>xs. xs) (\<lambda>m. []) medium_example)) = [1] \<and>
   set (map c_index (m_chunks (chunk_main (\<lambda>i. ''h'') (\<lambda>xs. xs) (\<lambda>xs. xs) (\<lambda>xs. xs) (\<lambda>m. []) medium_example)))
     \<noteq> {0 ..< length (m_chunks (chunk_main (\<lambda>i. ''h'') (\<lambda>xs. xs) (\<lambda>xs. xs) (\<lambda>xs. xs) (\<lambda>m. []) medium_example))}"
proof -
  have "map c_index (m_chunks (chunk_main (\<lambda>i. ''h'') (\<lambda>xs. xs) (\<lambda>xs. xs) (\<lambda>xs. xs) (\<lambda>m. []) medium_example)) = [1]"
    by (simp add: chunk_main_def medium_example_def small_pass_def make_medium_chunk_def Let_def)
  moreover from this have "length (m_chunks (chunk_main (\<lambda>i. ''h'') (\<lambda>xs. xs) (\<lambda>xs. xs) (\<lambda>xs. xs) (\<lambda>m. []) medium_example)) = 1"
    by (metis length_map length_Cons list.size(3) One_nat_def)
  ultimately show ?thesis by simp
qed

end
